theory Spec2Isabelle
  imports Main "HOL-Library.Word"
begin

section \<open>Package balancer: backends and selection algorithms\<close>

text \<open>
  \<^verbatim>\<open>type Backend struct { Address string; Healthy bool }\<close> of
  \<^verbatim>\<open>internal/balancer/balancer.go\<close>.
\<close>

record Backend =
  Address :: string
  Healthy :: bool

text \<open>
  A \<^verbatim>\<open>*Backend\<close> as the selection algorithms return it: either \<^verbatim>\<open>nil\<close> or the address
  \<^verbatim>\<open>&healthy[index]\<close> of an element of a slice, kept as the slice and the index.
\<close>

datatype BackendPtr = NilPtr | ElemPtr "Backend list" nat

fun deref :: "BackendPtr \<Rightarrow> Backend option" where
  "deref NilPtr = None"
| "deref (ElemPtr s i) = (if i < length s then Some (s ! i) else None)"

text \<open>The run-time panics of Go that the selection code could raise.\<close>

datatype panic = IntegerDivideByZero | IndexOutOfRange

text \<open>A slice length is a Go \<^verbatim>\<open>int\<close>: at most \<open>2^63 - 1\<close>.\<close>

definition MaxInt :: nat where
  "MaxInt = 2 ^ 63 - 1"

text \<open>\<^verbatim>\<open>type RoundRobinAlgorithm struct { counter uint64 }\<close>\<close>

record RoundRobinAlgorithm =
  counter :: "64 word"

definition NewRoundRobinAlgorithm :: RoundRobinAlgorithm where
  "NewRoundRobinAlgorithm = \<lparr>counter = 0\<rparr>"

text \<open>
  The filter loop of \<^verbatim>\<open>SelectBackend\<close>:
  \<^verbatim>\<open>for _, backend := range backends { if backend.Healthy { healthy = append(healthy, backend) } }\<close>
\<close>

fun filterHealthy :: "Backend list \<Rightarrow> Backend list \<Rightarrow> Backend list" where
  "filterHealthy healthy [] = healthy"
| "filterHealthy healthy (backend # rest) =
     filterHealthy (if Healthy backend then healthy @ [backend] else healthy) rest"

text \<open>
  \<^verbatim>\<open>func (rr *RoundRobinAlgorithm) SelectBackend(backends []Backend) *Backend\<close>.
  The receiver is updated in place by \<^verbatim>\<open>atomic.AddUint64(&rr.counter, 1)\<close>, which returns the
  new value; the model returns the updated receiver with the result. The remainder by zero
  and the index beyond the slice are the two panics the last two lines could raise.
\<close>

definition SelectBackend ::
  "RoundRobinAlgorithm \<Rightarrow> Backend list \<Rightarrow> panic + (BackendPtr \<times> RoundRobinAlgorithm)" where
  "SelectBackend rr backends =
     (if length backends = 0 then Inr (NilPtr, rr)
      else
        let healthy = filterHealthy [] backends in
        if length healthy = 0 then Inr (NilPtr, rr)
        else
          let rr' = rr\<lparr>counter := counter rr + 1\<rparr>;
              n = (word_of_nat (length healthy) :: 64 word)
          in if n = 0 then Inl IntegerDivideByZero
             else
               let index = counter rr' mod n
               in if unat index < length healthy
                  then Inr (ElemPtr healthy (unat index), rr')
                  else Inl IndexOutOfRange)"

text \<open>
  The loop of the unit test and of the integration tests: \<open>m\<close> sequential calls on one
  algorithm instance and one fixed list, collecting the returned pointers in call order.
\<close>

fun SelectSeq ::
  "nat \<Rightarrow> RoundRobinAlgorithm \<Rightarrow> Backend list \<Rightarrow> panic + (BackendPtr list \<times> RoundRobinAlgorithm)" where
  "SelectSeq 0 rr backends = Inr ([], rr)"
| "SelectSeq (Suc m) rr backends =
     (case SelectBackend rr backends of
        Inl e \<Rightarrow> Inl e
      | Inr (p, rr') \<Rightarrow>
          (case SelectSeq m rr' backends of
             Inl e \<Rightarrow> Inl e
           | Inr (ps, rr'') \<Rightarrow> Inr (p # ps, rr'')))"

text \<open>\<^verbatim>\<open>type LeastConnectionsAlgorithm struct {}\<close> and its \<^verbatim>\<open>SelectBackend\<close>.\<close>

type_synonym LeastConnectionsAlgorithm = unit

definition LeastConnections_SelectBackend ::
  "LeastConnectionsAlgorithm \<Rightarrow> Backend list \<Rightarrow> BackendPtr" where
  "LeastConnections_SelectBackend lc backends = NilPtr"

text \<open>The backend lists of the unit test's table.\<close>

definition threeHealthy :: "Backend list" where
  "threeHealthy =
     [\<lparr>Address = ''server1:8081'', Healthy = True\<rparr>,
      \<lparr>Address = ''server2:8082'', Healthy = True\<rparr>,
      \<lparr>Address = ''server3:8083'', Healthy = True\<rparr>]"

definition mixedHealth :: "Backend list" where
  "mixedHealth =
     [\<lparr>Address = ''server1:8081'', Healthy = True\<rparr>,
      \<lparr>Address = ''server2:8082'', Healthy = False\<rparr>,
      \<lparr>Address = ''server3:8083'', Healthy = True\<rparr>]"

section \<open>Package backend: the server registry\<close>

text \<open>
  \<^verbatim>\<open>type Server struct { Address string; Port int; Healthy bool; LastChecked time.Time }\<close>.
  A \<^verbatim>\<open>time.Time\<close> is kept as a number of nanoseconds, \<open>0\<close> for the zero value.
\<close>

record Server =
  SAddress :: string
  SPort :: int
  SHealthy :: bool
  SLastChecked :: int

text \<open>
  The registry holds \<^verbatim>\<open>[]*Server\<close>: pointers, so the servers live in a store and are
  shared by everyone who holds the pointer. The store is the list of all servers allocated
  so far and a pointer is a position in it; \<^verbatim>\<open>&Server{...}\<close> allocates at the end.
  A slice of pointers is kept as the list of its elements: \<^verbatim>\<open>append\<close> writes only at
  positions from the old length on, so it never changes what a slice value obtained
  earlier contains.
\<close>

type_synonym ServerPtr = nat
type_synonym store = "Server list"

record Manager =
  servers :: "ServerPtr list"

definition NewManager :: Manager where
  "NewManager = \<lparr>servers = []\<rparr>"

text \<open>\<^verbatim>\<open>func (m *Manager) AddServer(address string, port int)\<close>\<close>

definition AddServer :: "Manager \<Rightarrow> store \<Rightarrow> string \<Rightarrow> int \<Rightarrow> Manager \<times> store" where
  "AddServer m h addr port =
     (let server = length h;
          h' = h @ [\<lparr>SAddress = addr, SPort = port, SHealthy = False, SLastChecked = 0\<rparr>]
      in (m\<lparr>servers := servers m @ [server]\<rparr>, h'))"

text \<open>
  The loop of the callers, \<^verbatim>\<open>for _, port := range backendPorts { manager.AddServer("localhost", port) }\<close>,
  for any list of arguments.
\<close>

fun AddServers :: "Manager \<Rightarrow> store \<Rightarrow> (string \<times> int) list \<Rightarrow> Manager \<times> store" where
  "AddServers m h [] = (m, h)"
| "AddServers m h ((addr, port) # rest) =
     (case AddServer m h addr port of (m', h') \<Rightarrow> AddServers m' h' rest)"

text \<open>\<^verbatim>\<open>func (m *Manager) GetHealthyServers() []*Server\<close>: the loop, then the method.\<close>

fun healthyServers :: "store \<Rightarrow> ServerPtr list \<Rightarrow> ServerPtr list \<Rightarrow> ServerPtr list" where
  "healthyServers h healthy [] = healthy"
| "healthyServers h healthy (server # rest) =
     healthyServers h (if SHealthy (h ! server) then healthy @ [server] else healthy) rest"

definition GetHealthyServers :: "Manager \<Rightarrow> store \<Rightarrow> ServerPtr list" where
  "GetHealthyServers m h = healthyServers h [] (servers m)"

text \<open>\<^verbatim>\<open>func (m *Manager) GetAllServers() []*Server { return m.servers }\<close>\<close>

definition GetAllServers :: "Manager \<Rightarrow> ServerPtr list" where
  "GetAllServers m = servers m"

text \<open>What a holder of a slice of server pointers reads through it in a given store.\<close>

definition view :: "store \<Rightarrow> ServerPtr list \<Rightarrow> Server list" where
  "view h ps = map (\<lambda>p. h ! p) ps"

text \<open>Every pointer of the registry points into the store (Go has no dangling pointers).\<close>

definition wf_manager :: "Manager \<Rightarrow> store \<Rightarrow> bool" where
  "wf_manager m h = list_all (\<lambda>p. p < length h) (servers m)"

text \<open>The identity of a backend is its (address, port) pair.\<close>

definition identities :: "Manager \<Rightarrow> store \<Rightarrow> (string \<times> int) list" where
  "identities m h = map (\<lambda>p. (SAddress (h ! p), SPort (h ! p))) (servers m)"

text \<open>\<^verbatim>\<open>fmt.Sprintf("%s:%d", s.Address, s.Port)\<close>: the port in decimal.\<close>

function decimal :: "nat \<Rightarrow> string" where
  "decimal n =
     (if n < 10 then [''0123456789'' ! n]
      else decimal (n div 10) @ [''0123456789'' ! (n mod 10)])"
  by pat_completeness auto
termination
  by (relation "measure id") auto

declare decimal.simps [simp del]

definition itoa :: "int \<Rightarrow> string" where
  "itoa i = (if i < 0 then CHR ''-'' # decimal (nat (- i)) else decimal (nat i))"

definition GetAddress :: "Server \<Rightarrow> string" where
  "GetAddress s = SAddress s @ '':'' @ itoa (SPort s)"

text \<open>
  A \<^verbatim>\<open>time.Duration\<close> is a number of nanoseconds. \<^verbatim>\<open>net.DialTimeout(network, address, timeout)\<close>
  is the environment's: a \<open>dialer\<close> says whether the connection is established
  (\<^verbatim>\<open>err == nil\<close>) for the given network, address and timeout.
\<close>

type_synonym Duration = int

definition Millisecond :: Duration where
  "Millisecond = 1000000"

definition Second :: Duration where
  "Second = 1000000000"

type_synonym dialer = "string \<Rightarrow> string \<Rightarrow> Duration \<Rightarrow> bool"

text \<open>A backend that accepts a connection after \<open>latency\<close>: the dial succeeds within a longer timeout only.\<close>

definition slowBackend :: "Duration \<Rightarrow> dialer" where
  "slowBackend latency network addr t = (latency < t)"

text \<open>\<^verbatim>\<open>func (s *Server) IsReachable() bool\<close>\<close>

definition IsReachable :: "dialer \<Rightarrow> Server \<Rightarrow> bool" where
  "IsReachable dial s = dial ''tcp'' (GetAddress s) (5 * Second)"

section \<open>Package health: the checker\<close>

text \<open>
  \<^verbatim>\<open>type Checker struct { manager *backend.Manager; interval, timeout time.Duration; stopCh chan struct{} }\<close>.
  The manager and the store are passed to the methods; the stop channel plays no part in
  a check.
\<close>

record Checker =
  interval :: Duration
  timeout :: Duration

definition NewChecker :: "Duration \<Rightarrow> Duration \<Rightarrow> Checker" where
  "NewChecker i t = \<lparr>interval = i, timeout = t\<rparr>"

text \<open>
  \<^verbatim>\<open>func (c *Checker) checkServer(server *backend.Server)\<close>, at time \<open>now\<close>; the log lines
  are left out. The server is updated in the store.
\<close>

definition checkServer :: "Checker \<Rightarrow> dialer \<Rightarrow> int \<Rightarrow> store \<Rightarrow> ServerPtr \<Rightarrow> store" where
  "checkServer c dial now h server =
     (let h1 = h[server := (h ! server)\<lparr>SLastChecked := now\<rparr>]
      in if IsReachable dial (h1 ! server)
         then h1[server := (h1 ! server)\<lparr>SHealthy := True\<rparr>]
         else h1[server := (h1 ! server)\<lparr>SHealthy := False\<rparr>])"

text \<open>\<^verbatim>\<open>func (c *Checker) checkAll()\<close>: one check cycle over \<^verbatim>\<open>GetAllServers()\<close>.\<close>

definition checkAll :: "Checker \<Rightarrow> dialer \<Rightarrow> int \<Rightarrow> Manager \<Rightarrow> store \<Rightarrow> store" where
  "checkAll c dial now m h = foldl (checkServer c dial now) h (GetAllServers m)"

section \<open>Package pool: the connection pool\<close>

text \<open>
  A \<^verbatim>\<open>net.Conn\<close> is an identifier. The network is the environment of the pool: whether a
  dial to the backend succeeds, what a read with a one-millisecond deadline on a
  connection gives, and, as the observable effects, the number of calls of
  \<^verbatim>\<open>net.DialTimeout\<close> (the dial counter, also the identifier of the next connection) and the
  connections closed so far.
\<close>

type_synonym conn = nat

datatype read_result = ReadData | ReadTimeout | ReadEOF

record network =
  reachable :: bool
  peer :: "conn \<Rightarrow> read_result"
  dials :: nat
  closed :: "conn list"

datatype pool_error = ErrPoolExhausted | DialError

text \<open>
  \<^verbatim>\<open>type ConnectionPool struct { address string; maxSize int; connections chan net.Conn; mu sync.RWMutex; active int }\<close>.
  The channel is its buffer, oldest first; its capacity is \<open>maxSize\<close>. Calls are taken one
  at a time, so the mutex has no field.
\<close>

record ConnectionPool =
  address :: string
  maxSize :: int
  connections :: "conn list"
  active :: int

text \<open>\<^verbatim>\<open>NewConnectionPool\<close>; \<^verbatim>\<open>make(chan net.Conn, maxSize)\<close> panics on a negative size.\<close>

definition NewConnectionPool :: "string \<Rightarrow> int \<Rightarrow> ConnectionPool option" where
  "NewConnectionPool addr k =
     (if k < 0 then None
      else Some \<lparr>address = addr, maxSize = k, connections = [], active = 0\<rparr>)"

text \<open>\<^verbatim>\<open>func (p *ConnectionPool) createConnection() (net.Conn, error)\<close>\<close>

definition createConnection ::
  "network \<Rightarrow> ConnectionPool \<Rightarrow> (pool_error + conn) \<times> ConnectionPool \<times> network" where
  "createConnection net p =
     (if active p \<ge> maxSize p then (Inl ErrPoolExhausted, p, net)
      else
        let net' = net\<lparr>dials := dials net + 1\<rparr>
        in if \<not> reachable net then (Inl DialError, p, net')
           else (Inr (dials net), p\<lparr>active := active p + 1\<rparr>, net'))"

text \<open>
  \<^verbatim>\<open>func (p *ConnectionPool) isConnectionValid(conn net.Conn) bool\<close>: a one-byte read with a
  deadline of one millisecond; every error of the read, the expired deadline too, closes
  the connection and decrements \<open>active\<close>.
\<close>

definition isConnectionValid ::
  "network \<Rightarrow> ConnectionPool \<Rightarrow> conn \<Rightarrow> bool \<times> ConnectionPool \<times> network" where
  "isConnectionValid net p c =
     (case peer net c of
        ReadData \<Rightarrow> (True, p, net)
      | _ \<Rightarrow> (False, p\<lparr>active := active p - 1\<rparr>, net\<lparr>closed := c # closed net\<rparr>))"

text \<open>\<^verbatim>\<open>func (p *ConnectionPool) Get() (net.Conn, error)\<close>\<close>

definition Get ::
  "network \<Rightarrow> ConnectionPool \<Rightarrow> (pool_error + conn) \<times> ConnectionPool \<times> network" where
  "Get net p =
     (case connections p of
        c # rest \<Rightarrow>
          (case isConnectionValid net (p\<lparr>connections := rest\<rparr>) c of
             (valid, p', net') \<Rightarrow>
               if valid then (Inr c, p', net') else createConnection net' p')
      | [] \<Rightarrow> createConnection net p)"

text \<open>\<^verbatim>\<open>func (p *ConnectionPool) Put(conn net.Conn)\<close>; \<open>None\<close> is the \<^verbatim>\<open>nil\<close> connection.\<close>

definition Put ::
  "network \<Rightarrow> ConnectionPool \<Rightarrow> conn option \<Rightarrow> ConnectionPool \<times> network" where
  "Put net p co =
     (case co of
        None \<Rightarrow> (p, net)
      | Some c \<Rightarrow>
          if int (length (connections p)) < maxSize p
          then (p\<lparr>connections := connections p @ [c]\<rparr>, net)
          else (p\<lparr>active := active p - 1\<rparr>, net\<lparr>closed := c # closed net\<rparr>))"

text \<open>\<^verbatim>\<open>ActiveConnections\<close> and \<^verbatim>\<open>PoolSize\<close>.\<close>

definition ActiveConnections :: "ConnectionPool \<Rightarrow> int" where
  "ActiveConnections p = active p"

definition PoolSize :: "ConnectionPool \<Rightarrow> int" where
  "PoolSize p = int (length (connections p))"

text \<open>\<open>k\<close> acquires in a row, none released in between: the results in call order.\<close>

fun GetN ::
  "nat \<Rightarrow> network \<Rightarrow> ConnectionPool \<Rightarrow> (pool_error + conn) list \<times> ConnectionPool \<times> network" where
  "GetN 0 net p = ([], p, net)"
| "GetN (Suc k) net p =
     (case Get net p of
        (r, p', net') \<Rightarrow> (case GetN k net' p' of (rs, p'', net'') \<Rightarrow> (r # rs, p'', net'')))"

text \<open>
  The states a pool can be in: a new pool, and what \<^verbatim>\<open>Get\<close> and \<^verbatim>\<open>Put\<close> make of a state
  it can be in, whatever the network does and whichever connection is put back.
\<close>

inductive pool_state :: "ConnectionPool \<Rightarrow> bool" where
  new: "NewConnectionPool addr k = Some p \<Longrightarrow> pool_state p"
| get: "pool_state p \<Longrightarrow> Get net p = (r, p', net') \<Longrightarrow> pool_state p'"
| put: "pool_state p \<Longrightarrow> Put net p co = (p', net') \<Longrightarrow> pool_state p'"

text \<open>A network whose backend accepts every dial and sends nothing on an idle connection.\<close>

definition idleNetwork :: network where
  "idleNetwork = \<lparr>reachable = True, peer = (\<lambda>c. ReadTimeout), dials = 0, closed = []\<rparr>"

text \<open>A network whose backend accepts every dial and has a byte ready on every connection.\<close>

definition chattyNetwork :: network where
  "chattyNetwork = \<lparr>reachable = True, peer = (\<lambda>c. ReadData), dials = 0, closed = []\<rparr>"

text \<open>
  The scenario of the pool's reuse property: an acquire, the release of what it returned,
  and a second acquire; the two results, the pool and the network at the end.
\<close>

definition acquireReleaseAcquire ::
  "network \<Rightarrow> ConnectionPool \<Rightarrow> (pool_error + conn) \<times> (pool_error + conn) \<times> ConnectionPool \<times> network" where
  "acquireReleaseAcquire net p =
     (case Get net p of
        (r1, p1, net1) \<Rightarrow>
          (case Put net1 p1 (case r1 of Inr c \<Rightarrow> Some c | Inl e \<Rightarrow> None) of
             (p2, net2) \<Rightarrow>
               (case Get net2 p2 of (r2, p3, net3) \<Rightarrow> (r1, r2, p3, net3))))"

section \<open>Package balancer: the dispatcher\<close>

text \<open>
  \<^verbatim>\<open>type Algorithm interface { SelectBackend(backends []Backend) *Backend }\<close> with its two
  implementations, and \<^verbatim>\<open>type LoadBalancer struct { listenAddr string; backends []Backend; algorithm Algorithm }\<close>.
\<close>

datatype Algorithm =
  RoundRobin RoundRobinAlgorithm
| LeastConnections LeastConnectionsAlgorithm

record LoadBalancer =
  listenAddr :: string
  lbBackends :: "Backend list"
  algorithm :: Algorithm

definition NewLoadBalancer :: "string \<Rightarrow> Backend list \<Rightarrow> Algorithm \<Rightarrow> LoadBalancer" where
  "NewLoadBalancer la bs alg = \<lparr>listenAddr = la, lbBackends = bs, algorithm = alg\<rparr>"

text \<open>
  What a connection handler can do to the world: close connections, dial backends, write
  bytes to connections. The world records each, latest first.
\<close>

record world =
  closedConns :: "conn list"
  dialed :: "string list"
  written :: "(conn \<times> 8 word list) list"

definition quietWorld :: world where
  "quietWorld = \<lparr>closedConns = [], dialed = [], written = []\<rparr>"

text \<open>
  \<^verbatim>\<open>func (lb *LoadBalancer) handleConnection(conn net.Conn)\<close>: the body is
  \<^verbatim>\<open>defer conn.Close()\<close> and two comments. The result is the load balancer (with the state
  of its algorithm) and the world after the call.
\<close>

definition handleConnection :: "LoadBalancer \<Rightarrow> world \<Rightarrow> conn \<Rightarrow> LoadBalancer \<times> world" where
  "handleConnection lb w c = (lb, w\<lparr>closedConns := c # closedConns w\<rparr>)"

section \<open>Round robin: basic facts\<close>

lemma filterHealthy_filter: "filterHealthy acc bs = acc @ filter Healthy bs"
  by (induction bs arbitrary: acc) simp_all

lemma unat_len_healthy:
  assumes "length backends \<le> MaxInt"
  shows "unat (word_of_nat (length (filter Healthy backends)) :: 64 word)
           = length (filter Healthy backends)"
proof -
  have "length (filter Healthy backends) \<le> length backends"
    by (rule length_filter_le)
  moreover have "MaxInt < 2 ^ 64" by (simp add: MaxInt_def)
  ultimately have "length (filter Healthy backends) < 2 ^ 64"
    using assms by linarith
  then show ?thesis by (simp add: unat_of_nat)
qed

lemma SelectBackend_healthy:
  assumes len: "length backends \<le> MaxInt"
    and ne: "filter Healthy backends \<noteq> []"
  shows "SelectBackend rr backends =
           Inr (ElemPtr (filter Healthy backends)
                  (unat (counter rr + 1) mod length (filter Healthy backends)),
                rr\<lparr>counter := counter rr + 1\<rparr>)"
proof -
  let ?h = "filter Healthy backends"
  let ?n = "word_of_nat (length ?h) :: 64 word"
  have un: "unat ?n = length ?h" using len by (rule unat_len_healthy)
  have pos: "0 < length ?h" using ne by simp
  have n0: "?n \<noteq> 0" using un pos by (metis unat_0 less_numeral_extra(3))
  have idx: "unat ((counter rr + 1) mod ?n) = unat (counter rr + 1) mod length ?h"
    by (simp add: unat_mod un)
  have lt: "unat (counter rr + 1) mod length ?h < length ?h" using pos by simp
  have bne: "backends \<noteq> []" using ne by auto
  show ?thesis
    using n0 idx lt bne ne
    by (simp add: SelectBackend_def filterHealthy_filter Let_def)
qed

lemma SelectBackend_none:
  assumes "filter Healthy backends = []"
  shows "SelectBackend rr backends = Inr (NilPtr, rr)"
  using assms by (simp add: SelectBackend_def filterHealthy_filter)

subsection \<open>Sequential calls\<close>

lemma SelectSeq_closed:
  assumes len: "length backends \<le> MaxInt"
    and ne: "filter Healthy backends \<noteq> []"
  shows "SelectSeq m rr backends =
           Inr (map (\<lambda>k. ElemPtr (filter Healthy backends)
                          (unat (counter rr + word_of_nat (Suc k)) mod length (filter Healthy backends)))
                    [0..<m],
                rr\<lparr>counter := counter rr + word_of_nat m\<rparr>)"
proof (induction m arbitrary: rr)
  case 0
  show ?case by simp
next
  case (Suc m)
  have step: "SelectBackend rr backends =
           Inr (ElemPtr (filter Healthy backends)
                  (unat (counter rr + 1) mod length (filter Healthy backends)),
                rr\<lparr>counter := counter rr + 1\<rparr>)"
    using len ne by (rule SelectBackend_healthy)
  have upt: "[0..<Suc m] = 0 # map Suc [0..<m]"
    by (simp add: upt_conv_Cons map_Suc_upt del: upt_Suc)
  show ?case
    unfolding SelectSeq.simps step upt
    by (simp add: Suc.IH ac_simps comp_def del: upt_Suc)
qed

lemma unat_counter_add:
  fixes c :: "64 word"
  assumes "unat c + k < 2 ^ 64"
  shows "unat (c + word_of_nat k) = unat c + k"
proof -
  have "k < 2 ^ 64" using assms by linarith
  then have k: "unat (word_of_nat k :: 64 word) = k" by (simp add: unat_of_nat)
  have "unat c + unat (word_of_nat k :: 64 word) < 2 ^ LENGTH(64)"
    using assms k by simp
  then have "unat (c + word_of_nat k) = unat c + unat (word_of_nat k :: 64 word)"
    by (rule unat_add_lem [THEN iffD1])
  with k show ?thesis by simp
qed

lemma SelectSeq_nowrap:
  assumes len: "length backends \<le> MaxInt"
    and ne: "filter Healthy backends \<noteq> []"
    and nowrap: "unat (counter rr) + m < 2 ^ 64"
  shows "SelectSeq m rr backends =
           Inr (map (\<lambda>k. ElemPtr (filter Healthy backends)
                          ((Suc (unat (counter rr)) + k) mod length (filter Healthy backends)))
                    [0..<m],
                rr\<lparr>counter := counter rr + word_of_nat m\<rparr>)"
proof -
  have "unat (counter rr + word_of_nat (Suc k)) = Suc (unat (counter rr)) + k"
    if "k < m" for k
  proof -
    from that nowrap have "unat (counter rr) + Suc k < 2 ^ 64" by linarith
    then have "unat (counter rr + word_of_nat (Suc k)) = unat (counter rr) + Suc k"
      by (rule unat_counter_add)
    then show ?thesis by simp
  qed
  then have "map (\<lambda>k. ElemPtr (filter Healthy backends)
                 (unat (counter rr + word_of_nat (Suc k)) mod length (filter Healthy backends)))
               [0..<m] =
             map (\<lambda>k. ElemPtr (filter Healthy backends)
                 ((Suc (unat (counter rr)) + k) mod length (filter Healthy backends)))
               [0..<m]"
    by (intro map_cong) simp_all
  then show ?thesis
    using SelectSeq_closed [OF len ne, of m rr] by simp
qed

lemma count_list_map_filter:
  "count_list (map f xs) y = length (filter (\<lambda>x. f x = y) xs)"
  by (induction xs) simp_all

subsection \<open>Residues in a window of consecutive counter values\<close>

lemma mod_shift_zero:
  fixes n N i :: nat
  assumes "i < N"
  shows "(n + (N - i)) mod N = 0 \<longleftrightarrow> n mod N = i"
proof -
  let ?r = "n mod N"
  have r: "?r < N" using assms by simp
  have "(n + (N - i)) mod N = (?r + (N - i)) mod N"
    by (simp add: mod_add_left_eq)
  moreover have "(?r + (N - i)) mod N = 0 \<longleftrightarrow> ?r = i"
  proof (cases "?r < i")
    case True
    then have lt: "?r + (N - i) < N" using assms by linarith
    have pos: "0 < ?r + (N - i)" using assms by linarith
    have "(?r + (N - i)) mod N = ?r + (N - i)" using lt by (rule mod_less)
    with pos True show ?thesis by linarith
  next
    case False
    then have e: "?r + (N - i) = N + (?r - i)" using assms by linarith
    have lt: "?r - i < N" using r by linarith
    have "(N + (?r - i)) mod N = ?r - i" using lt by simp
    with e have "(?r + (N - i)) mod N = ?r - i" by simp
    with False show ?thesis by linarith
  qed
  ultimately show ?thesis by simp
qed

lemma mod_count_upt:
  fixes n N i :: nat
  assumes "i < N"
  shows "length (filter (\<lambda>k. k mod N = i) [0..<n]) = (n + (N - 1 - i)) div N"
proof (induction n)
  case 0
  show ?case using assms by simp
next
  case (Suc n)
  let ?m = "n + (N - 1 - i)"
  have eq: "Suc ?m = n + (N - i)" using assms by linarith
  have "Suc ?m div N = (if Suc ?m mod N = 0 then Suc (?m div N) else ?m div N)"
    by (rule div_Suc)
  then have "Suc ?m div N = (if n mod N = i then Suc (?m div N) else ?m div N)"
    unfolding eq mod_shift_zero [OF assms] .
  moreover have "Suc n + (N - 1 - i) = Suc ?m" by simp
  ultimately have "(Suc n + (N - 1 - i)) div N =
          ?m div N + (if n mod N = i then 1 else 0)"
    by simp
  then show ?case using Suc.IH by simp
qed

lemma mod_count_shift:
  fixes a M N i :: nat
  assumes "i < N"
  shows "length (filter (\<lambda>k. (a + k) mod N = i) [0..<M]) =
           (a + M + (N - 1 - i)) div N - (a + (N - 1 - i)) div N"
proof -
  have "map (\<lambda>k. a + k) [0..<M] = map (\<lambda>k. k + a) [0..<M]"
    by (simp add: add.commute)
  also have "\<dots> = [a..<M + a]" by (rule map_add_upt)
  finally have shift: "[a..<a + M] = map (\<lambda>k. a + k) [0..<M]"
    by (simp add: add.commute)
  have "[0..<a + M] = [0..<a] @ [a..<a + M]"
    by (rule upt_add_eq_append) simp
  then have split: "[0..<a + M] = [0..<a] @ map (\<lambda>k. a + k) [0..<M]"
    using shift by simp
  have "length (filter (\<lambda>k. k mod N = i) [0..<a + M]) =
          length (filter (\<lambda>k. k mod N = i) [0..<a]) +
          length (filter (\<lambda>k. (a + k) mod N = i) [0..<M])"
    unfolding split by (simp add: filter_map comp_def)
  then show ?thesis
    by (simp add: mod_count_upt [OF assms])
qed

lemma div_window_lower:
  fixes x M N :: nat
  shows "M div N \<le> (x + M) div N - x div N"
proof (cases "N = 0")
  case True then show ?thesis by simp
next
  case False
  have "x div N * N + M div N * N \<le> x + M"
    by (simp add: add_mono)
  then have "(x div N + M div N) * N \<le> x + M" by (simp add: algebra_simps)
  moreover have "0 < N" using False by simp
  ultimately have "x div N + M div N \<le> (x + M) div N"
    using less_eq_div_iff_mult_less_eq [of N "x div N + M div N" "x + M"] by blast
  then show ?thesis by linarith
qed

lemma div_window_upper:
  fixes x M N :: nat
  assumes "0 < N"
  shows "(x + M) div N - x div N \<le> (M + N - 1) div N"
proof -
  have x: "x div N * N + x mod N = x" by simp
  have "x mod N \<le> N - 1" using mod_less_divisor [OF assms, of x] by linarith
  then have "x + M \<le> x div N * N + (M + N - 1)" using x assms by linarith
  then have "(x + M) div N \<le> (x div N * N + (M + N - 1)) div N"
    by (rule div_le_mono)
  also have "\<dots> = x div N + (M + N - 1) div N"
    by (rule div_mult_self3) (use assms in simp)
  finally show ?thesis by linarith
qed

lemma count_window:
  fixes a M N i :: nat
  assumes "i < N"
  shows "M div N \<le> length (filter (\<lambda>k. (a + k) mod N = i) [0..<M])"
    and "length (filter (\<lambda>k. (a + k) mod N = i) [0..<M]) \<le> (M + N - 1) div N"
proof -
  let ?x = "a + (N - 1 - i)"
  have e: "a + M + (N - 1 - i) = ?x + M" by simp
  have c: "length (filter (\<lambda>k. (a + k) mod N = i) [0..<M]) = (?x + M) div N - ?x div N"
    unfolding mod_count_shift [OF assms] e ..
  have pos: "0 < N" using assms by simp
  show "M div N \<le> length (filter (\<lambda>k. (a + k) mod N = i) [0..<M])"
    unfolding c by (rule div_window_lower)
  show "length (filter (\<lambda>k. (a + k) mod N = i) [0..<M]) \<le> (M + N - 1) div N"
    unfolding c using pos by (rule div_window_upper)
qed

lemma cycle_from_one:
  assumes "2 \<le> N"
  shows "map (\<lambda>k. Suc k mod N) [0..<N] = [1..<N] @ [0]"
proof -
  have "N = Suc (N - 1)" using assms by simp
  then have "[0..<N] = [0..<Suc (N - 1)]" by simp
  also have "\<dots> = [0..<N - 1] @ [N - 1]" by (rule upt_Suc_append) simp
  finally have split: "[0..<N] = [0..<N - 1] @ [N - 1]" .
  have "map (\<lambda>k. Suc k mod N) [0..<N - 1] = map Suc [0..<N - 1]"
    by (intro map_cong) simp_all
  also have "\<dots> = [1..<N]"
    using assms by (simp add: map_Suc_upt)
  finally have front: "map (\<lambda>k. Suc k mod N) [0..<N - 1] = [1..<N]" .
  have last: "Suc (N - 1) mod N = 0" using assms by simp
  show ?thesis
    unfolding split using front last by simp
qed

section \<open>Round robin: healthy backends only\<close>

text \<open>
  C3. For every list of backends (of a length a Go slice can have) and every state of the
  counter, round-robin \<^verbatim>\<open>SelectBackend\<close> raises no panic; it returns \<^verbatim>\<open>nil\<close> exactly when
  the healthy-filtered subset is empty, in particular for an empty list and for a list of
  unhealthy backends only; and a pointer it returns that is not \<^verbatim>\<open>nil\<close> points to a
  backend of the input whose \<^verbatim>\<open>Healthy\<close> flag is true.
\<close>

theorem SelectBackend_only_healthy:
  assumes len: "length backends \<le> MaxInt"
  shows "\<exists>p rr'.
           SelectBackend rr backends = Inr (p, rr') \<and>
           (p = NilPtr \<longleftrightarrow> filter Healthy backends = []) \<and>
           (backends = [] \<longrightarrow> p = NilPtr) \<and>
           ((\<forall>b \<in> set backends. \<not> Healthy b) \<longrightarrow> p = NilPtr) \<and>
           (p \<noteq> NilPtr \<longrightarrow> (\<exists>b. deref p = Some b \<and> Healthy b \<and> b \<in> set backends))"
proof (cases "filter Healthy backends = []")
  case True
  then have "SelectBackend rr backends = Inr (NilPtr, rr)"
    by (rule SelectBackend_none)
  with True show ?thesis by simp
next
  case False
  let ?h = "filter Healthy backends"
  let ?i = "unat (counter rr + 1) mod length ?h"
  have sel: "SelectBackend rr backends = Inr (ElemPtr ?h ?i, rr\<lparr>counter := counter rr + 1\<rparr>)"
    using len False by (rule SelectBackend_healthy)
  have lt: "?i < length ?h" using False by simp
  then have mem: "?h ! ?i \<in> set ?h" by (rule nth_mem)
  then have good: "Healthy (?h ! ?i)" and inp: "?h ! ?i \<in> set backends" by simp_all
  have d: "deref (ElemPtr ?h ?i) = Some (?h ! ?i)" using lt by simp
  have some: "\<exists>b \<in> set backends. Healthy b" using inp good by blast
  have ne: "backends \<noteq> []" using False by auto
  show ?thesis using sel False d good inp some ne by simp
qed

theorem SelectBackend_only_healthy_witness:
  "length mixedHealth \<le> MaxInt \<and>
   (\<exists>p rr' b.
      SelectBackend NewRoundRobinAlgorithm mixedHealth = Inr (p, rr') \<and>
      deref p = Some b \<and> Healthy b)"
proof -
  have h: "length mixedHealth \<le> MaxInt" by (simp add: mixedHealth_def MaxInt_def)
  obtain p rr' where sel: "SelectBackend NewRoundRobinAlgorithm mixedHealth = Inr (p, rr')"
    and nil: "p = NilPtr \<longleftrightarrow> filter Healthy mixedHealth = []"
    and ok: "p \<noteq> NilPtr \<longrightarrow> (\<exists>b. deref p = Some b \<and> Healthy b \<and> b \<in> set mixedHealth)"
    using SelectBackend_only_healthy [OF h, of NewRoundRobinAlgorithm] by blast
  from nil have "p \<noteq> NilPtr" by (simp add: mixedHealth_def)
  with ok obtain b where "deref p = Some b" and "Healthy b" by blast
  with sel h show ?thesis by blast
qed

section \<open>Round robin: fairness of sequential selection\<close>

text \<open>
  C4 (as amended). For every fixed list with \<open>N \<ge> 1\<close> healthy backends, every state of the
  counter and every \<open>M \<ge> N\<close> sequential calls during which the 64-bit counter does not wrap
  around (\<open>counter + M < 2^64\<close>), all \<open>M\<close> calls return and each of the \<open>N\<close> healthy
  backends (each index \<open>i < N\<close> of the filtered list) is selected at least \<open>\<lfloor>M/N\<rfloor>\<close> times
  and at most \<open>\<lceil>M/N\<rceil>\<close> times.
\<close>

theorem SelectSeq_fair:
  assumes len: "length backends \<le> MaxInt"
    and N: "N = length (filter Healthy backends)"
    and N1: "1 \<le> N"
    and MN: "N \<le> M"
    and nowrap: "unat (counter rr) + M < 2 ^ 64"
    and i: "i < N"
  shows "\<exists>ps rr'.
           SelectSeq M rr backends = Inr (ps, rr') \<and> length ps = M \<and>
           M div N \<le> count_list ps (ElemPtr (filter Healthy backends) i) \<and>
           count_list ps (ElemPtr (filter Healthy backends) i) \<le> (M + N - 1) div N"
proof -
  let ?h = "filter Healthy backends"
  let ?a = "Suc (unat (counter rr))"
  let ?ps = "map (\<lambda>k. ElemPtr ?h ((?a + k) mod N)) [0..<M]"
  have ne: "?h \<noteq> []" using N N1 by auto
  have run: "SelectSeq M rr backends = Inr (?ps, rr\<lparr>counter := counter rr + word_of_nat M\<rparr>)"
    unfolding N using len ne nowrap by (rule SelectSeq_nowrap)
  have cnt: "count_list ?ps (ElemPtr ?h i) = length (filter (\<lambda>k. (?a + k) mod N = i) [0..<M])"
    by (simp add: count_list_map_filter)
  have lo: "M div N \<le> count_list ?ps (ElemPtr ?h i)"
    unfolding cnt using i by (rule count_window(1))
  have hi: "count_list ?ps (ElemPtr ?h i) \<le> (M + N - 1) div N"
    unfolding cnt using i by (rule count_window(2))
  have "length ?ps = M" by simp
  with run lo hi show ?thesis by blast
qed

theorem SelectSeq_fair_witness:
  "length threeHealthy \<le> MaxInt \<and>
   (3::nat) = length (filter Healthy threeHealthy) \<and> (1::nat) \<le> 3 \<and> (3::nat) \<le> 6 \<and>
   unat (counter NewRoundRobinAlgorithm) + 6 < 2 ^ 64 \<and> (0::nat) < 3 \<and>
   (\<exists>ps rr'.
      SelectSeq 6 NewRoundRobinAlgorithm threeHealthy = Inr (ps, rr') \<and> length ps = 6 \<and>
      count_list ps (ElemPtr (filter Healthy threeHealthy) 0) = 2)"
proof -
  have h1: "length threeHealthy \<le> MaxInt" by (simp add: threeHealthy_def MaxInt_def)
  have h2: "(3::nat) = length (filter Healthy threeHealthy)" by (simp add: threeHealthy_def)
  have h3: "(1::nat) \<le> 3" by simp
  have h4: "(3::nat) \<le> 6" by simp
  have h5: "unat (counter NewRoundRobinAlgorithm) + 6 < 2 ^ 64"
    by (simp add: NewRoundRobinAlgorithm_def)
  have h6: "(0::nat) < 3" by simp
  obtain ps rr' where run: "SelectSeq 6 NewRoundRobinAlgorithm threeHealthy = Inr (ps, rr')"
    and n: "length ps = 6"
    and lo: "6 div 3 \<le> count_list ps (ElemPtr (filter Healthy threeHealthy) 0)"
    and hi: "count_list ps (ElemPtr (filter Healthy threeHealthy) 0) \<le> (6 + 3 - 1) div 3"
    using SelectSeq_fair [OF h1 h2 h3 h4 h5 h6] by blast
  from lo hi have "count_list ps (ElemPtr (filter Healthy threeHealthy) 0) = 2" by simp
  with run n h1 h2 h3 h4 h5 h6 show ?thesis by blast
qed

text \<open>
  The claim as first stated (every \<open>M \<ge> N\<close> calls, whatever the counter) fails where the
  counter wraps: with three healthy backends and the counter at \<open>2^64 - 3\<close>, three calls
  use the counter values \<open>2^64 - 2\<close>, \<open>2^64 - 1\<close> and \<open>0\<close>, whose remainders by 3 are
  2, 0 and 0, so the backend at index 1 is not selected at all although \<open>\<lfloor>3/3\<rfloor> = 1\<close>.
\<close>

theorem SelectSeq_wrap_counterexample:
  "SelectSeq 3 \<lparr>counter = 18446744073709551613\<rparr> threeHealthy =
     Inr ([ElemPtr threeHealthy 2, ElemPtr threeHealthy 0, ElemPtr threeHealthy 0],
          \<lparr>counter = 0\<rparr>) \<and>
   filter Healthy threeHealthy = threeHealthy \<and>
   \<not> (3 div length (filter Healthy threeHealthy) \<le>
        count_list [ElemPtr threeHealthy 2, ElemPtr threeHealthy 0, ElemPtr threeHealthy 0]
          (ElemPtr (filter Healthy threeHealthy) 1))"
proof -
  have run: "SelectSeq (Suc (Suc (Suc 0))) \<lparr>counter = 18446744073709551613\<rparr> threeHealthy =
     Inr ([ElemPtr threeHealthy 2, ElemPtr threeHealthy 0, ElemPtr threeHealthy 0],
          \<lparr>counter = 0\<rparr>)"
    by (simp add: threeHealthy_def SelectBackend_def Let_def)
  have flt: "filter Healthy threeHealthy = threeHealthy"
    by (simp add: threeHealthy_def)
  have len: "length threeHealthy = 3" by (simp add: threeHealthy_def)
  have cnt: "count_list [ElemPtr threeHealthy 2, ElemPtr threeHealthy 0, ElemPtr threeHealthy 0]
          (ElemPtr threeHealthy 1) = 0"
    by simp
  have "\<not> (3 div length (filter Healthy threeHealthy) \<le>
        count_list [ElemPtr threeHealthy 2, ElemPtr threeHealthy 0, ElemPtr threeHealthy 0]
          (ElemPtr (filter Healthy threeHealthy) 1))"
    unfolding flt cnt len by simp
  with run flt show ?thesis by (simp only: numeral_3_eq_3 simp_thms)
qed

section \<open>Round robin: the first selection\<close>

text \<open>
  C10 (as amended). The counter is incremented before it is used as an index, so a freshly
  constructed \<^verbatim>\<open>RoundRobinAlgorithm\<close> on a fixed list with \<open>N \<ge> 2\<close> healthy backends
  returns the backend at filtered index 1 on its first call, not index 0. The \<open>k\<close>-th of
  its sequential calls returns filtered index \<open>(k mod 2^64) mod N\<close>; for the first
  \<open>2^64 - 1\<close> calls, until the 64-bit counter wraps, that is \<open>k mod N\<close>, the cycle
  \<open>1, 2, \<dots>, N - 1, 0, 1, \<dots>\<close>. The first \<open>N\<close> calls return the indices
  \<open>1, 2, \<dots>, N - 1, 0\<close>, so the first backend in registry order is selected for the first
  time by the \<open>N\<close>-th call.
\<close>

theorem RoundRobin_first_index_is_one:
  assumes len: "length backends \<le> MaxInt"
    and N: "N = length (filter Healthy backends)"
    and N2: "2 \<le> N"
  shows "SelectBackend NewRoundRobinAlgorithm backends =
           Inr (ElemPtr (filter Healthy backends) 1, \<lparr>counter = 1\<rparr>) \<and>
         SelectSeq m NewRoundRobinAlgorithm backends =
           Inr (map (\<lambda>k. ElemPtr (filter Healthy backends) (Suc k mod 2 ^ 64 mod N)) [0..<m],
                \<lparr>counter = word_of_nat m\<rparr>) \<and>
         (m < 2 ^ 64 \<longrightarrow>
            SelectSeq m NewRoundRobinAlgorithm backends =
              Inr (map (\<lambda>k. ElemPtr (filter Healthy backends) (Suc k mod N)) [0..<m],
                   \<lparr>counter = word_of_nat m\<rparr>)) \<and>
         SelectSeq N NewRoundRobinAlgorithm backends =
           Inr (map (ElemPtr (filter Healthy backends)) ([1..<N] @ [0]),
                \<lparr>counter = word_of_nat N\<rparr>)"
proof -
  let ?h = "filter Healthy backends"
  have ne: "?h \<noteq> []" using N N2 by auto
  have c0: "counter NewRoundRobinAlgorithm = 0"
    by (simp add: NewRoundRobinAlgorithm_def)
  have upd: "NewRoundRobinAlgorithm\<lparr>counter := w\<rparr> = \<lparr>counter = w\<rparr>" for w
    by (simp add: NewRoundRobinAlgorithm_def)
  have un: "unat (word_of_nat j :: 64 word) = j mod 2 ^ 64" for j
    by (simp add: unat_of_nat)
  have every: "SelectSeq m NewRoundRobinAlgorithm backends =
           Inr (map (\<lambda>k. ElemPtr ?h (Suc k mod 2 ^ 64 mod N)) [0..<m],
                \<lparr>counter = word_of_nat m\<rparr>)"
    using SelectSeq_closed [OF len ne, of m NewRoundRobinAlgorithm]
    unfolding c0 upd add_0 un N .
  have seq: "SelectSeq j NewRoundRobinAlgorithm backends =
           Inr (map (\<lambda>k. ElemPtr ?h (Suc k mod N)) [0..<j], \<lparr>counter = word_of_nat j\<rparr>)"
    if "j < 2 ^ 64" for j
  proof -
    have "unat (counter NewRoundRobinAlgorithm) + j < 2 ^ 64"
      using that by (simp add: c0)
    from SelectSeq_nowrap [OF len ne this] show ?thesis
      by (simp add: c0 upd N)
  qed
  have first: "SelectBackend NewRoundRobinAlgorithm backends =
           Inr (ElemPtr ?h 1, \<lparr>counter = 1\<rparr>)"
  proof -
    have "1 mod length ?h = 1" using N N2 by simp
    then show ?thesis
      using SelectBackend_healthy [OF len ne, of NewRoundRobinAlgorithm]
      by (simp add: c0 upd)
  qed
  have "N \<le> length backends" unfolding N by (rule length_filter_le)
  then have "N < 2 ^ 64" using len by (simp add: MaxInt_def)
  then have "SelectSeq N NewRoundRobinAlgorithm backends =
           Inr (map (\<lambda>k. ElemPtr ?h (Suc k mod N)) [0..<N], \<lparr>counter = word_of_nat N\<rparr>)"
    by (rule seq)
  also have "map (\<lambda>k. ElemPtr ?h (Suc k mod N)) [0..<N] =
               map (ElemPtr ?h) (map (\<lambda>k. Suc k mod N) [0..<N])"
    by (simp add: comp_def)
  finally have cyc: "SelectSeq N NewRoundRobinAlgorithm backends =
           Inr (map (ElemPtr ?h) ([1..<N] @ [0]), \<lparr>counter = word_of_nat N\<rparr>)"
    unfolding cycle_from_one [OF N2] .
  from first every seq [of m] cyc show ?thesis by blast
qed

theorem RoundRobin_first_index_is_one_witness:
  "length threeHealthy \<le> MaxInt \<and> (3::nat) = length (filter Healthy threeHealthy) \<and>
   (2::nat) \<le> 3 \<and> (6::nat) < 2 ^ 64 \<and>
   SelectBackend NewRoundRobinAlgorithm threeHealthy =
     Inr (ElemPtr threeHealthy 1, \<lparr>counter = 1\<rparr>) \<and>
   SelectSeq 6 NewRoundRobinAlgorithm threeHealthy =
     Inr (map (ElemPtr threeHealthy) [1, 2, 0, 1, 2, 0], \<lparr>counter = 6\<rparr>)"
proof -
  have h1: "length threeHealthy \<le> MaxInt" by (simp add: threeHealthy_def MaxInt_def)
  have h2: "(3::nat) = length (filter Healthy threeHealthy)" by (simp add: threeHealthy_def)
  have h3: "(2::nat) \<le> 3" by simp
  have h4: "(6::nat) < 2 ^ 64" by simp
  have flt: "filter Healthy threeHealthy = threeHealthy" by (simp add: threeHealthy_def)
  have idx: "map (\<lambda>k. ElemPtr threeHealthy (Suc k mod 3)) [0..<6] =
               map (ElemPtr threeHealthy) [1, 2, 0, 1, 2, 0]"
    by (simp add: upt_rec)
  note inst = RoundRobin_first_index_is_one [OF h1 h2 h3, of 6]
  from inst have "SelectBackend NewRoundRobinAlgorithm threeHealthy =
          Inr (ElemPtr (filter Healthy threeHealthy) 1, \<lparr>counter = 1\<rparr>)"
    by (rule conjunct1)
  then have a: "SelectBackend NewRoundRobinAlgorithm threeHealthy =
          Inr (ElemPtr threeHealthy 1, \<lparr>counter = 1\<rparr>)"
    unfolding flt .
  from inst h4 have "SelectSeq 6 NewRoundRobinAlgorithm threeHealthy =
          Inr (map (\<lambda>k. ElemPtr (filter Healthy threeHealthy) (Suc k mod 3)) [0..<6],
               \<lparr>counter = word_of_nat 6\<rparr>)"
    by blast
  then have "SelectSeq 6 NewRoundRobinAlgorithm threeHealthy =
          Inr (map (ElemPtr threeHealthy) [1, 2, 0, 1, 2, 0], \<lparr>counter = 6\<rparr>)"
    unfolding flt idx by simp
  with a have "SelectBackend NewRoundRobinAlgorithm threeHealthy =
          Inr (ElemPtr threeHealthy 1, \<lparr>counter = 1\<rparr>) \<and>
        SelectSeq 6 NewRoundRobinAlgorithm threeHealthy =
          Inr (map (ElemPtr threeHealthy) [1, 2, 0, 1, 2, 0], \<lparr>counter = 6\<rparr>)"
    by (rule conjI)
  with h1 h2 h3 h4 show ?thesis by blast
qed

text \<open>
  The claim as first stated, a cycle without end, fails where the counter wraps. On three
  healthy backends a freshly constructed instance returns filtered index 0 on its call
  number \<open>2^64 - 1\<close> (counter value \<open>2^64 - 1\<close>, a multiple of 3) and index 0 again on
  call number \<open>2^64\<close> (counter value 0), where the cycle has index \<open>2^64 mod 3 = 1\<close>.
  The results are numbered from 0 in the list, so these are its positions \<open>2^64 - 2\<close> and
  \<open>2^64 - 1\<close>.
\<close>

theorem RoundRobin_cycle_wrap_counterexample:
  "\<not> isl (SelectSeq 18446744073709551616 NewRoundRobinAlgorithm threeHealthy) \<and>
   length (fst (projr (SelectSeq 18446744073709551616 NewRoundRobinAlgorithm threeHealthy))) =
     18446744073709551616 \<and>
   fst (projr (SelectSeq 18446744073709551616 NewRoundRobinAlgorithm threeHealthy)) !
     18446744073709551614 = ElemPtr threeHealthy 0 \<and>
   fst (projr (SelectSeq 18446744073709551616 NewRoundRobinAlgorithm threeHealthy)) !
     18446744073709551615 = ElemPtr threeHealthy 0 \<and>
   (18446744073709551616 :: nat) mod length (filter Healthy threeHealthy) = 1 \<and>
   fst (projr (SelectSeq 18446744073709551616 NewRoundRobinAlgorithm threeHealthy)) !
     18446744073709551615 \<noteq>
     ElemPtr threeHealthy (18446744073709551616 mod length (filter Healthy threeHealthy))"
proof -
  let ?M = "18446744073709551616 :: nat"
  let ?f = "\<lambda>k. ElemPtr (filter Healthy threeHealthy)
              (unat (counter NewRoundRobinAlgorithm + word_of_nat (Suc k))
                 mod length (filter Healthy threeHealthy))"
  have len: "length threeHealthy \<le> MaxInt" by (simp add: threeHealthy_def MaxInt_def)
  have flt: "filter Healthy threeHealthy = threeHealthy" by (simp add: threeHealthy_def)
  have n3: "length threeHealthy = 3" by (simp add: threeHealthy_def)
  have ne: "filter Healthy threeHealthy \<noteq> []" by (simp add: threeHealthy_def)
  have run: "SelectSeq ?M NewRoundRobinAlgorithm threeHealthy =
               Inr (map ?f [0..<?M],
                    NewRoundRobinAlgorithm\<lparr>counter := counter NewRoundRobinAlgorithm + word_of_nat ?M\<rparr>)"
    using len ne by (rule SelectSeq_closed)
  have c0: "counter NewRoundRobinAlgorithm = 0" by (simp add: NewRoundRobinAlgorithm_def)
  have a: "map ?f [0..<?M] ! 18446744073709551614 = ?f 18446744073709551614"
    by (subst nth_map) simp_all
  have b: "map ?f [0..<?M] ! 18446744073709551615 = ?f 18446744073709551615"
    by (subst nth_map) simp_all
  have fa: "?f 18446744073709551614 = ElemPtr threeHealthy 0"
    unfolding flt n3 c0 by simp
  have fb: "?f 18446744073709551615 = ElemPtr threeHealthy 0"
    unfolding flt n3 c0 by simp
  have m: "?M mod length (filter Healthy threeHealthy) = 1"
    unfolding flt n3 by simp
  have sel: "fst (projr (SelectSeq ?M NewRoundRobinAlgorithm threeHealthy)) = map ?f [0..<?M]"
    unfolding run by (simp only: sum.sel fst_conv)
  have r1: "\<not> isl (SelectSeq ?M NewRoundRobinAlgorithm threeHealthy)"
    unfolding run by (simp only: sum.disc simp_thms)
  have r2: "length (fst (projr (SelectSeq ?M NewRoundRobinAlgorithm threeHealthy))) = ?M"
    unfolding sel by simp
  have r3: "fst (projr (SelectSeq ?M NewRoundRobinAlgorithm threeHealthy)) !
              18446744073709551614 = ElemPtr threeHealthy 0"
    unfolding sel a fa ..
  have r4: "fst (projr (SelectSeq ?M NewRoundRobinAlgorithm threeHealthy)) !
              18446744073709551615 = ElemPtr threeHealthy 0"
    unfolding sel b fb ..
  have r5: "fst (projr (SelectSeq ?M NewRoundRobinAlgorithm threeHealthy)) !
              18446744073709551615 \<noteq>
            ElemPtr threeHealthy (?M mod length (filter Healthy threeHealthy))"
    unfolding r4 m by simp
  from r1 r2 r3 r4 m r5 show ?thesis by (intro conjI)
qed

section \<open>Least connections\<close>

text \<open>
  C9. \<^verbatim>\<open>LeastConnectionsAlgorithm.SelectBackend\<close> returns \<^verbatim>\<open>nil\<close> for every list of
  backends, also for a non-empty list of healthy backends only: the strategy selects no
  backend at all.
\<close>

theorem LeastConnections_selects_nothing:
  "LeastConnections_SelectBackend lc backends = NilPtr \<and>
   LeastConnections_SelectBackend lc
     [\<lparr>Address = ''server1:8081'', Healthy = True\<rparr>,
      \<lparr>Address = ''server2:8082'', Healthy = True\<rparr>] = NilPtr"
  by (simp add: LeastConnections_SelectBackend_def)

section \<open>Registry: identities after AddServer\<close>

lemma healthyServers_filter:
  "healthyServers h acc ps = acc @ filter (\<lambda>p. SHealthy (h ! p)) ps"
  by (induction ps arbitrary: acc) simp_all

lemma GetHealthyServers_filter:
  "GetHealthyServers m h = filter (\<lambda>p. SHealthy (h ! p)) (servers m)"
  by (simp add: GetHealthyServers_def healthyServers_filter)

lemma AddServer_step:
  assumes wf: "wf_manager m h"
    and add: "AddServer m h addr port = (m', h')"
  shows "servers m' = servers m @ [length h]"
    and "h' = h @ [\<lparr>SAddress = addr, SPort = port, SHealthy = False, SLastChecked = 0\<rparr>]"
    and "wf_manager m' h'"
    and "view h' (servers m) = view h (servers m)"
    and "identities m' h' = identities m h @ [(addr, port)]"
proof -
  from add show s: "servers m' = servers m @ [length h]"
    and h: "h' = h @ [\<lparr>SAddress = addr, SPort = port, SHealthy = False, SLastChecked = 0\<rparr>]"
    by (auto simp: AddServer_def Let_def)
  have old: "\<forall>p \<in> set (servers m). p < length h"
    using wf by (simp add: wf_manager_def list_all_iff)
  then have same: "\<forall>p \<in> set (servers m). h' ! p = h ! p"
    unfolding h by (simp add: nth_append)
  show "wf_manager m' h'"
    using old unfolding wf_manager_def list_all_iff s h by auto
  show "view h' (servers m) = view h (servers m)"
    using same by (simp add: view_def)
  have "map (\<lambda>p. (SAddress (h' ! p), SPort (h' ! p))) (servers m) =
          map (\<lambda>p. (SAddress (h ! p), SPort (h ! p))) (servers m)"
    using same by simp
  then show "identities m' h' = identities m h @ [(addr, port)]"
    unfolding identities_def s by (simp add: h)
qed

lemma AddServers_steps:
  assumes "wf_manager m h" and "AddServers m h calls = (m', h')"
  shows "wf_manager m' h' \<and> identities m' h' = identities m h @ calls"
  using assms
proof (induction calls arbitrary: m h)
  case Nil
  then show ?case by simp
next
  case (Cons call calls)
  obtain addr port where call: "call = (addr, port)" by (cases call)
  obtain m1 h1 where one: "AddServer m h addr port = (m1, h1)"
    by (cases "AddServer m h addr port")
  from Cons.prems(2) have rest: "AddServers m1 h1 calls = (m', h')"
    by (simp add: call one)
  have wf1: "wf_manager m1 h1" and id1: "identities m1 h1 = identities m h @ [(addr, port)]"
    using AddServer_step [OF Cons.prems(1) one] by simp_all
  from Cons.IH [OF wf1 rest] show ?case by (simp add: id1 call)
qed

text \<open>
  C7 (as amended). \<^verbatim>\<open>AddServer\<close> appends without looking at what the registry holds: after
  every sequence of \<^verbatim>\<open>AddServer\<close> calls the identities in the registry are those it held
  before followed by the (address, port) pairs of the calls, in call order. So the registry is
  free of duplicate identities exactly when that whole sequence of pairs is.
\<close>

theorem AddServers_identities:
  assumes "wf_manager m h" and "AddServers m h calls = (m', h')"
  shows "identities m' h' = identities m h @ calls \<and>
         (distinct (identities m' h') \<longleftrightarrow> distinct (identities m h @ calls))"
  using AddServers_steps [OF assms] by simp

theorem AddServers_identities_witness:
  "wf_manager NewManager [] \<and>
   AddServers NewManager [] [(''localhost'', 8081), (''localhost'', 8082)] =
     (\<lparr>servers = [0, 1]\<rparr>,
      [\<lparr>SAddress = ''localhost'', SPort = 8081, SHealthy = False, SLastChecked = 0\<rparr>,
       \<lparr>SAddress = ''localhost'', SPort = 8082, SHealthy = False, SLastChecked = 0\<rparr>]) \<and>
   distinct (identities \<lparr>servers = [0, 1]\<rparr>
      [\<lparr>SAddress = ''localhost'', SPort = 8081, SHealthy = False, SLastChecked = 0\<rparr>,
       \<lparr>SAddress = ''localhost'', SPort = 8082, SHealthy = False, SLastChecked = 0\<rparr>])"
proof -
  have h1: "wf_manager NewManager []" by (simp add: wf_manager_def NewManager_def)
  have h2: "AddServers NewManager [] [(''localhost'', 8081), (''localhost'', 8082)] =
     (\<lparr>servers = [0, 1]\<rparr>,
      [\<lparr>SAddress = ''localhost'', SPort = 8081, SHealthy = False, SLastChecked = 0\<rparr>,
       \<lparr>SAddress = ''localhost'', SPort = 8082, SHealthy = False, SLastChecked = 0\<rparr>])"
    by (simp add: AddServer_def NewManager_def Let_def)
  have "identities NewManager [] = []" by (simp add: identities_def NewManager_def)
  with AddServers_identities [OF h1 h2] h1 h2 show ?thesis by simp
qed

text \<open>
  The claim as first stated fails: two \<^verbatim>\<open>AddServer("localhost", 8081)\<close> calls on a new
  registry leave two backends with the same identity in it.
\<close>

theorem AddServer_duplicate_counterexample:
  "AddServers NewManager [] [(''localhost'', 8081), (''localhost'', 8081)] =
     (\<lparr>servers = [0, 1]\<rparr>,
      [\<lparr>SAddress = ''localhost'', SPort = 8081, SHealthy = False, SLastChecked = 0\<rparr>,
       \<lparr>SAddress = ''localhost'', SPort = 8081, SHealthy = False, SLastChecked = 0\<rparr>]) \<and>
   identities \<lparr>servers = [0, 1]\<rparr>
      [\<lparr>SAddress = ''localhost'', SPort = 8081, SHealthy = False, SLastChecked = 0\<rparr>,
       \<lparr>SAddress = ''localhost'', SPort = 8081, SHealthy = False, SLastChecked = 0\<rparr>] =
     [(''localhost'', 8081), (''localhost'', 8081)] \<and>
   \<not> distinct (identities \<lparr>servers = [0, 1]\<rparr>
      [\<lparr>SAddress = ''localhost'', SPort = 8081, SHealthy = False, SLastChecked = 0\<rparr>,
       \<lparr>SAddress = ''localhost'', SPort = 8081, SHealthy = False, SLastChecked = 0\<rparr>])"
  by (simp add: AddServer_def NewManager_def Let_def identities_def)

section \<open>Registry: what GetAllServers returns\<close>

lemma IsReachable_address:
  "IsReachable dial (s\<lparr>SLastChecked := t\<rparr>) = IsReachable dial s"
  by (simp add: IsReachable_def GetAddress_def)

lemma checkServer_at:
  assumes "p < length h"
  shows "checkServer c dial now h p ! p =
           (h ! p)\<lparr>SLastChecked := now, SHealthy := IsReachable dial (h ! p)\<rparr>"
  using assms by (simp add: checkServer_def Let_def IsReachable_address)

text \<open>
  C6 (as amended). \<^verbatim>\<open>GetAllServers\<close> returns the registry's own slice of server pointers,
  not a copy of the servers. A later \<^verbatim>\<open>AddServer\<close> changes neither the value returned
  earlier nor the servers read through it (the new server is only in what \<^verbatim>\<open>GetAllServers\<close>
  returns afterwards); a later health check of one of its servers is visible through the
  value returned earlier, which then shows the new check time and the new health flag.
\<close>

theorem GetAllServers_shares_servers:
  assumes wf: "wf_manager m h"
    and add: "AddServer m h addr port = (m', h')"
    and i: "i < length (GetAllServers m)"
  shows "GetAllServers m = servers m \<and>
         GetAllServers m' = GetAllServers m @ [length h] \<and>
         view h' (GetAllServers m) = view h (GetAllServers m) \<and>
         view (checkServer c dial now h (GetAllServers m ! i)) (GetAllServers m) ! i =
           (view h (GetAllServers m) ! i)
             \<lparr>SLastChecked := now,
              SHealthy := IsReachable dial (view h (GetAllServers m) ! i)\<rparr>"
proof -
  let ?p = "servers m ! i"
  have i': "i < length (servers m)" using i by (simp add: GetAllServers_def)
  then have "?p \<in> set (servers m)" by (rule nth_mem)
  then have p: "?p < length h"
    using wf by (simp add: wf_manager_def list_all_iff)
  have "view (checkServer c dial now h ?p) (servers m) ! i = checkServer c dial now h ?p ! ?p"
    using i' by (simp add: view_def)
  also have "\<dots> = (h ! ?p)\<lparr>SLastChecked := now, SHealthy := IsReachable dial (h ! ?p)\<rparr>"
    using p by (rule checkServer_at)
  also have "h ! ?p = view h (servers m) ! i"
    using i' by (simp add: view_def)
  finally have live: "view (checkServer c dial now h ?p) (servers m) ! i =
      (view h (servers m) ! i)
        \<lparr>SLastChecked := now, SHealthy := IsReachable dial (view h (servers m) ! i)\<rparr>" .
  show ?thesis
    using AddServer_step(1,4) [OF wf add] live
    by (simp add: GetAllServers_def)
qed

theorem GetAllServers_shares_servers_witness:
  "wf_manager \<lparr>servers = [0]\<rparr>
     [\<lparr>SAddress = ''localhost'', SPort = 8081, SHealthy = False, SLastChecked = 0\<rparr>] \<and>
   AddServer \<lparr>servers = [0]\<rparr>
     [\<lparr>SAddress = ''localhost'', SPort = 8081, SHealthy = False, SLastChecked = 0\<rparr>]
     ''localhost'' 8082 =
     (\<lparr>servers = [0, 1]\<rparr>,
      [\<lparr>SAddress = ''localhost'', SPort = 8081, SHealthy = False, SLastChecked = 0\<rparr>,
       \<lparr>SAddress = ''localhost'', SPort = 8082, SHealthy = False, SLastChecked = 0\<rparr>]) \<and>
   0 < length (GetAllServers \<lparr>servers = [0]\<rparr>) \<and>
   GetAllServers \<lparr>servers = [0, 1]\<rparr> = GetAllServers \<lparr>servers = [0]\<rparr> @ [1] \<and>
   view [\<lparr>SAddress = ''localhost'', SPort = 8081, SHealthy = False, SLastChecked = 0\<rparr>,
         \<lparr>SAddress = ''localhost'', SPort = 8082, SHealthy = False, SLastChecked = 0\<rparr>]
        (GetAllServers \<lparr>servers = [0]\<rparr>) =
     [\<lparr>SAddress = ''localhost'', SPort = 8081, SHealthy = False, SLastChecked = 0\<rparr>] \<and>
   view (checkServer (NewChecker Second Second) (slowBackend 0) 7
           [\<lparr>SAddress = ''localhost'', SPort = 8081, SHealthy = False, SLastChecked = 0\<rparr>] 0)
        (GetAllServers \<lparr>servers = [0]\<rparr>) ! 0 =
     \<lparr>SAddress = ''localhost'', SPort = 8081, SHealthy = True, SLastChecked = 7\<rparr>"
proof -
  let ?s = "\<lparr>SAddress = ''localhost'', SPort = 8081, SHealthy = False, SLastChecked = 0\<rparr>"
  let ?m = "\<lparr>servers = [0]\<rparr>"
  have h1: "wf_manager ?m [?s]" by (simp add: wf_manager_def)
  have h2: "AddServer ?m [?s] ''localhost'' 8082 =
     (\<lparr>servers = [0, 1]\<rparr>,
      [?s, \<lparr>SAddress = ''localhost'', SPort = 8082, SHealthy = False, SLastChecked = 0\<rparr>])"
    by (simp add: AddServer_def Let_def)
  have h3: "0 < length (GetAllServers ?m)" by (simp add: GetAllServers_def)
  have v: "view [?s] (GetAllServers ?m) = [?s]" by (simp add: view_def GetAllServers_def)
  have r: "IsReachable (slowBackend 0) ?s" by (simp add: IsReachable_def slowBackend_def Second_def)
  from GetAllServers_shares_servers [OF h1 h2 h3, of "NewChecker Second Second" "slowBackend 0" 7]
  show ?thesis using h1 h2 h3 v r by (simp add: GetAllServers_def)
qed

text \<open>
  The claim as first stated fails for the health flag: the servers read through the value
  that \<^verbatim>\<open>GetAllServers\<close> returned differ before and after one check cycle.
\<close>

theorem GetAllServers_live_view_counterexample:
  "AddServer NewManager [] ''localhost'' 8081 =
     (\<lparr>servers = [0]\<rparr>,
      [\<lparr>SAddress = ''localhost'', SPort = 8081, SHealthy = False, SLastChecked = 0\<rparr>]) \<and>
   GetAllServers \<lparr>servers = [0]\<rparr> = [0] \<and>
   view [\<lparr>SAddress = ''localhost'', SPort = 8081, SHealthy = False, SLastChecked = 0\<rparr>] [0] =
     [\<lparr>SAddress = ''localhost'', SPort = 8081, SHealthy = False, SLastChecked = 0\<rparr>] \<and>
   view (checkAll (NewChecker Second Second) (slowBackend 0) 7 \<lparr>servers = [0]\<rparr>
           [\<lparr>SAddress = ''localhost'', SPort = 8081, SHealthy = False, SLastChecked = 0\<rparr>]) [0] =
     [\<lparr>SAddress = ''localhost'', SPort = 8081, SHealthy = True, SLastChecked = 7\<rparr>] \<and>
   view (checkAll (NewChecker Second Second) (slowBackend 0) 7 \<lparr>servers = [0]\<rparr>
           [\<lparr>SAddress = ''localhost'', SPort = 8081, SHealthy = False, SLastChecked = 0\<rparr>]) [0] \<noteq>
   view [\<lparr>SAddress = ''localhost'', SPort = 8081, SHealthy = False, SLastChecked = 0\<rparr>] [0]"
  by (simp add: AddServer_def NewManager_def Let_def GetAllServers_def view_def checkAll_def
      checkServer_def IsReachable_def slowBackend_def Second_def)

section \<open>Connection pool: exhaustion\<close>

lemma createConnection_cases:
  "createConnection net p =
     (if maxSize p \<le> active p then (Inl ErrPoolExhausted, p, net)
      else if reachable net
           then (Inr (dials net), p\<lparr>active := active p + 1\<rparr>, net\<lparr>dials := dials net + 1\<rparr>)
           else (Inl DialError, p, net\<lparr>dials := dials net + 1\<rparr>))"
  by (simp add: createConnection_def Let_def)

lemma createConnection_inv:
  assumes "createConnection net p = (r, p', net')" and "active p \<le> maxSize p"
  shows "active p' \<le> maxSize p' \<and> maxSize p' = maxSize p"
  using assms by (auto simp: createConnection_cases split: if_splits)

lemma isConnectionValid_inv:
  assumes "isConnectionValid net p c = (v, p', net')" and "active p \<le> maxSize p"
  shows "active p' \<le> maxSize p' \<and> maxSize p' = maxSize p"
  using assms by (auto simp: isConnectionValid_def split: read_result.splits)

lemma Get_inv:
  assumes g: "Get net p = (r, p', net')" and inv: "active p \<le> maxSize p"
  shows "active p' \<le> maxSize p' \<and> maxSize p' = maxSize p"
proof (cases "connections p")
  case Nil
  with g have "createConnection net p = (r, p', net')" by (simp add: Get_def)
  then show ?thesis using inv by (rule createConnection_inv)
next
  case (Cons c rest)
  obtain v p1 net1 where v: "isConnectionValid net (p\<lparr>connections := rest\<rparr>) c = (v, p1, net1)"
    by (cases "isConnectionValid net (p\<lparr>connections := rest\<rparr>) c")
  have inv1: "active p1 \<le> maxSize p1 \<and> maxSize p1 = maxSize p"
    using isConnectionValid_inv [OF v] inv by simp
  show ?thesis
  proof (cases v)
    case True
    with g Cons v have "p' = p1" by (simp add: Get_def)
    with inv1 show ?thesis by simp
  next
    case False
    with g Cons v have "createConnection net1 p1 = (r, p', net')" by (simp add: Get_def)
    from createConnection_inv [OF this] inv1 show ?thesis by simp
  qed
qed

lemma Put_inv:
  assumes "Put net p co = (p', net')" and "active p \<le> maxSize p"
  shows "active p' \<le> maxSize p' \<and> maxSize p' = maxSize p"
  using assms by (auto simp: Put_def split: option.splits if_splits)

lemma pool_state_inv:
  assumes "pool_state p"
  shows "active p \<le> maxSize p"
  using assms
proof (induction rule: pool_state.induct)
  case (new addr k p)
  then show ?case by (auto simp: NewConnectionPool_def split: if_splits)
next
  case (get p net r p' net')
  from Get_inv [OF get.hyps(2) get.IH] show ?case by simp
next
  case (put p net co p' net')
  from Put_inv [OF put.hyps(2) put.IH] show ?case by simp
qed

lemma Get_exhausted_iff:
  assumes inv: "active p \<le> maxSize p"
  shows "fst (Get net p) = Inl ErrPoolExhausted \<longleftrightarrow> maxSize p \<le> active p \<and> connections p = []"
proof (cases "connections p")
  case Nil
  then show ?thesis by (simp add: Get_def createConnection_cases)
next
  case (Cons c rest)
  then show ?thesis
    using inv
    by (simp add: Get_def isConnectionValid_def createConnection_cases split: read_result.splits)
qed

lemma GetN_all_outstanding:
  assumes "reachable net" and "connections p = []" and "active p + int k \<le> maxSize p"
  shows "GetN k net p =
           (map Inr [dials net..<dials net + k],
            p\<lparr>active := active p + int k\<rparr>,
            net\<lparr>dials := dials net + k\<rparr>)"
  using assms
proof (induction k arbitrary: net p)
  case 0
  then show ?case by simp
next
  case (Suc k)
  let ?p1 = "p\<lparr>active := active p + 1\<rparr>"
  let ?n1 = "net\<lparr>dials := dials net + 1\<rparr>"
  have one: "Get net p = (Inr (dials net), ?p1, ?n1)"
    using Suc.prems by (simp add: Get_def createConnection_cases)
  have rest: "GetN k ?n1 ?p1 =
      (map Inr [dials ?n1..<dials ?n1 + k], ?p1\<lparr>active := active ?p1 + int k\<rparr>,
       ?n1\<lparr>dials := dials ?n1 + k\<rparr>)"
    using Suc.prems by (intro Suc.IH) simp_all
  have upt: "[dials net..<dials net + Suc k] = dials net # [Suc (dials net)..<Suc (dials net) + k]"
    by (simp add: upt_conv_Cons del: upt_Suc)
  show ?case
    unfolding GetN.simps one upt using rest by (simp add: add.commute add.left_commute)
qed

lemma Get_after_release:
  assumes up: "reachable net" and full: "active p = maxSize p" and idle: "connections p = [c]"
  shows "\<exists>c'. fst (Get net p) = Inr c'"
proof (cases "peer net c")
  case ReadData
  then show ?thesis using idle by (simp add: Get_def isConnectionValid_def)
next
  case ReadTimeout
  then show ?thesis
    using idle up full by (simp add: Get_def isConnectionValid_def createConnection_cases)
next
  case ReadEOF
  then show ?thesis
    using idle up full by (simp add: Get_def isConnectionValid_def createConnection_cases)
qed

text \<open>
  C8. In every state a pool can reach, \<^verbatim>\<open>Get\<close> fails with \<^verbatim>\<open>ErrPoolExhausted\<close> (an error
  distinct from a dial error) if and only if \<open>active\<close> has reached \<open>maxSize\<close> and no idle
  connection is in the channel. In particular, on a new pool with \<open>maxSize = K\<close> and a
  reachable backend, \<open>K\<close> acquires in a row all succeed and leave \<open>K\<close> connections
  outstanding and none idle; a further acquire then fails with \<^verbatim>\<open>ErrPoolExhausted\<close>; and
  after any one of the \<open>K\<close> connections is released, the next acquire succeeds.
\<close>

theorem Get_PoolExhausted:
  assumes st: "pool_state p"
    and new: "NewConnectionPool addr K = Some p0"
    and up: "reachable net0"
    and run: "GetN (nat K) net0 p0 = (rs, pK, netK)"
  shows "(fst (Get net p) = Inl ErrPoolExhausted \<longleftrightarrow>
            maxSize p \<le> active p \<and> connections p = []) \<and>
         rs = map Inr [dials net0..<dials net0 + nat K] \<and>
         ActiveConnections pK = K \<and> PoolSize pK = 0 \<and>
         fst (Get netK pK) = Inl ErrPoolExhausted \<and>
         (\<forall>c pR netR. Inr c \<in> set rs \<and> Put netK pK (Some c) = (pR, netR) \<longrightarrow>
            (\<exists>c'. fst (Get netR pR) = Inr c'))"
proof -
  have iff: "fst (Get net p) = Inl ErrPoolExhausted \<longleftrightarrow>
               maxSize p \<le> active p \<and> connections p = []"
    using pool_state_inv [OF st] by (rule Get_exhausted_iff)
  from new have K: "0 \<le> K"
    and p0: "p0 = \<lparr>address = addr, maxSize = K, connections = [], active = 0\<rparr>"
    by (auto simp: NewConnectionPool_def split: if_splits)
  have "GetN (nat K) net0 p0 =
          (map Inr [dials net0..<dials net0 + nat K], p0\<lparr>active := active p0 + int (nat K)\<rparr>,
           net0\<lparr>dials := dials net0 + nat K\<rparr>)"
    using up K by (intro GetN_all_outstanding) (simp_all add: p0)
  with run have rs: "rs = map Inr [dials net0..<dials net0 + nat K]"
    and pK: "pK = p0\<lparr>active := active p0 + int (nat K)\<rparr>"
    and netK: "netK = net0\<lparr>dials := dials net0 + nat K\<rparr>"
    by simp_all
  have aK: "active pK = K" and mK: "maxSize pK = K" and cK: "connections pK = []"
    using K by (simp_all add: pK p0)
  have full: "fst (Get netK pK) = Inl ErrPoolExhausted"
    using aK mK cK by (simp add: Get_def createConnection_cases)
  have again: "\<exists>c'. fst (Get netR pR) = Inr c'"
    if c: "Inr c \<in> set rs" and rel: "Put netK pK (Some c) = (pR, netR)" for c pR netR
  proof -
    from c rs have "0 < nat K" by auto
    then have "0 < K" by simp
    with rel have pR: "pR = pK\<lparr>connections := [c]\<rparr>" and nR: "netR = netK"
      by (auto simp: Put_def cK mK)
    have "reachable netR" using up by (simp add: nR netK)
    moreover have "active pR = maxSize pR" by (simp add: pR aK mK)
    moreover have "connections pR = [c]" by (simp add: pR)
    ultimately show ?thesis by (rule Get_after_release)
  qed
  have a1: "ActiveConnections pK = K" using aK by (simp add: ActiveConnections_def)
  have a2: "PoolSize pK = 0" using cK by (simp add: PoolSize_def)
  from again have a3: "\<forall>c pR netR. Inr c \<in> set rs \<and> Put netK pK (Some c) = (pR, netR) \<longrightarrow>
            (\<exists>c'. fst (Get netR pR) = Inr c')"
    by blast
  from iff rs a1 a2 full a3 show ?thesis by (intro conjI)
qed

theorem Get_PoolExhausted_witness:
  "pool_state \<lparr>address = ''localhost:8081'', maxSize = 2, connections = [], active = 0\<rparr> \<and>
   NewConnectionPool ''localhost:8081'' 2 =
     Some \<lparr>address = ''localhost:8081'', maxSize = 2, connections = [], active = 0\<rparr> \<and>
   reachable idleNetwork \<and>
   GetN (nat 2) idleNetwork
     \<lparr>address = ''localhost:8081'', maxSize = 2, connections = [], active = 0\<rparr> =
     ([Inr 0, Inr 1],
      \<lparr>address = ''localhost:8081'', maxSize = 2, connections = [], active = 2\<rparr>,
      idleNetwork\<lparr>dials := 2\<rparr>) \<and>
   fst (Get idleNetwork
     \<lparr>address = ''localhost:8081'', maxSize = 2, connections = [], active = 0\<rparr>) \<noteq>
     Inl ErrPoolExhausted \<and>
   fst (Get (idleNetwork\<lparr>dials := 2\<rparr>)
     \<lparr>address = ''localhost:8081'', maxSize = 2, connections = [], active = 2\<rparr>) =
     Inl ErrPoolExhausted \<and>
   Put (idleNetwork\<lparr>dials := 2\<rparr>)
     \<lparr>address = ''localhost:8081'', maxSize = 2, connections = [], active = 2\<rparr> (Some 1) =
     (\<lparr>address = ''localhost:8081'', maxSize = 2, connections = [1], active = 2\<rparr>,
      idleNetwork\<lparr>dials := 2\<rparr>) \<and>
   (\<exists>c'. fst (Get (idleNetwork\<lparr>dials := 2\<rparr>)
     \<lparr>address = ''localhost:8081'', maxSize = 2, connections = [1], active = 2\<rparr>) = Inr c')"
proof -
  let ?p0 = "\<lparr>address = ''localhost:8081'', maxSize = 2, connections = [], active = 0\<rparr>"
  let ?pK = "\<lparr>address = ''localhost:8081'', maxSize = 2, connections = [], active = 2\<rparr>"
  let ?pR = "\<lparr>address = ''localhost:8081'', maxSize = 2, connections = [1], active = 2\<rparr>"
  let ?nK = "idleNetwork\<lparr>dials := 2\<rparr>"
  have h2: "NewConnectionPool ''localhost:8081'' 2 = Some ?p0"
    by (simp add: NewConnectionPool_def)
  then have h1: "pool_state ?p0" by (rule pool_state.new)
  have h3: "reachable idleNetwork" by (simp add: idleNetwork_def)
  have h4: "GetN (nat 2) idleNetwork ?p0 = ([Inr 0, Inr 1], ?pK, ?nK)"
    by (simp add: numeral_2_eq_2 Get_def createConnection_cases idleNetwork_def)
  have rel: "Put ?nK ?pK (Some 1) = (?pR, ?nK)" by (simp add: Put_def)
  note inst = Get_PoolExhausted [OF h1 h2 h3 h4, of idleNetwork]
  from inst have a: "fst (Get idleNetwork ?p0) \<noteq> Inl ErrPoolExhausted" by simp
  from inst have b: "fst (Get ?nK ?pK) = Inl ErrPoolExhausted" by blast
  from inst have "\<forall>c pR netR. Inr c \<in> set [Inr 0, Inr 1 :: pool_error + conn] \<and>
      Put ?nK ?pK (Some c) = (pR, netR) \<longrightarrow> (\<exists>c'. fst (Get netR pR) = Inr c')"
    by blast
  then have "Inr 1 \<in> set [Inr 0, Inr 1 :: pool_error + conn] \<and>
      Put ?nK ?pK (Some 1) = (?pR, ?nK) \<longrightarrow> (\<exists>c'. fst (Get ?nK ?pR) = Inr c')"
    by blast
  moreover have "Inr 1 \<in> set [Inr 0, Inr 1 :: pool_error + conn]" by simp
  ultimately have c: "\<exists>c'. fst (Get ?nK ?pR) = Inr c'" using rel by blast
  show ?thesis using h1 h2 h3 h4 a b rel c by blast
qed

section \<open>Connection pool: reuse\<close>

text \<open>
  C2. Acquire, release, acquire on a new pool with \<open>maxSize = 2\<close> and a reachable backend
  that sends nothing on an idle connection: the second acquire takes the released
  connection 0 from the channel, the one-millisecond read of \<^verbatim>\<open>isConnectionValid\<close> ends on
  its deadline, which the code treats as a dead connection, so connection 0 is closed and a
  second dial returns connection 1: two dials, not one. Only when the backend has a byte
  ready to read does the second acquire return connection 0 again with a single dial.
\<close>

theorem acquire_release_acquire_redials:
  "NewConnectionPool ''localhost:8081'' 2 =
     Some \<lparr>address = ''localhost:8081'', maxSize = 2, connections = [], active = 0\<rparr> \<and>
   fst (acquireReleaseAcquire idleNetwork
     \<lparr>address = ''localhost:8081'', maxSize = 2, connections = [], active = 0\<rparr>) = Inr 0 \<and>
   fst (snd (acquireReleaseAcquire idleNetwork
     \<lparr>address = ''localhost:8081'', maxSize = 2, connections = [], active = 0\<rparr>)) = Inr 1 \<and>
   dials (snd (snd (snd (acquireReleaseAcquire idleNetwork
     \<lparr>address = ''localhost:8081'', maxSize = 2, connections = [], active = 0\<rparr>)))) = 2 \<and>
   closed (snd (snd (snd (acquireReleaseAcquire idleNetwork
     \<lparr>address = ''localhost:8081'', maxSize = 2, connections = [], active = 0\<rparr>)))) = [0] \<and>
   fst (snd (acquireReleaseAcquire chattyNetwork
     \<lparr>address = ''localhost:8081'', maxSize = 2, connections = [], active = 0\<rparr>)) = Inr 0 \<and>
   dials (snd (snd (snd (acquireReleaseAcquire chattyNetwork
     \<lparr>address = ''localhost:8081'', maxSize = 2, connections = [], active = 0\<rparr>)))) = 1"
  by (simp add: NewConnectionPool_def acquireReleaseAcquire_def Get_def Put_def
      createConnection_cases isConnectionValid_def idleNetwork_def chattyNetwork_def)

section \<open>Health checker: the timeout of a probe\<close>

lemma GetAddress_localhost:
  "GetAddress \<lparr>SAddress = ''localhost'', SPort = 8081, SHealthy = False, SLastChecked = 0\<rparr> =
     ''localhost:8081''"
  by (simp add: GetAddress_def itoa_def decimal.simps)

text \<open>
  C5. The probe of a backend is \<^verbatim>\<open>IsReachable\<close>, which dials with the fixed timeout of five
  seconds: the result of \<^verbatim>\<open>checkServer\<close> is the same for every configured interval and
  timeout. With an interval of one second and a configured timeout of 500 milliseconds the
  probe's timeout is not shorter than the interval, and a backend that needs two seconds to
  accept a connection, unreachable within the configured timeout, is marked healthy.
\<close>

theorem probe_timeout_is_fixed:
  "checkServer (NewChecker i t) dial now h server = checkServer (NewChecker i' t') dial now h server \<and>
   IsReachable dial s = dial ''tcp'' (GetAddress s) 5000000000 \<and>
   interval (NewChecker Second (500 * Millisecond)) = 1000000000 \<and>
   timeout (NewChecker Second (500 * Millisecond)) = 500000000 \<and>
   \<not> (5 * Second < interval (NewChecker Second (500 * Millisecond))) \<and>
   slowBackend (2 * Second) ''tcp'' ''localhost:8081''
     (timeout (NewChecker Second (500 * Millisecond))) = False \<and>
   checkServer (NewChecker Second (500 * Millisecond)) (slowBackend (2 * Second)) 7
     [\<lparr>SAddress = ''localhost'', SPort = 8081, SHealthy = False, SLastChecked = 0\<rparr>] 0 =
     [\<lparr>SAddress = ''localhost'', SPort = 8081, SHealthy = True, SLastChecked = 7\<rparr>]"
  by (simp add: checkServer_def IsReachable_def NewChecker_def Second_def Millisecond_def
      slowBackend_def Let_def)

section \<open>Dispatcher: what a connection handler does\<close>

text \<open>
  C1. \<^verbatim>\<open>handleConnection\<close> closes the client connection and does nothing else: the load
  balancer with the state of its algorithm is unchanged (no backend is selected), no
  backend is dialled and no byte is written to any connection, also when all three
  backends are healthy.
\<close>

theorem handleConnection_only_closes:
  "handleConnection lb w c = (lb, w\<lparr>closedConns := c # closedConns w\<rparr>) \<and>
   dialed (snd (handleConnection lb w c)) = dialed w \<and>
   written (snd (handleConnection lb w c)) = written w \<and>
   handleConnection
     (NewLoadBalancer '':8080'' threeHealthy (RoundRobin NewRoundRobinAlgorithm)) quietWorld 0 =
     (NewLoadBalancer '':8080'' threeHealthy (RoundRobin NewRoundRobinAlgorithm),
      \<lparr>closedConns = [0], dialed = [], written = []\<rparr>)"
  by (simp add: handleConnection_def quietWorld_def)

end
